theory Spec2Isabelle
  imports Complex_Main "HOL-Library.Option_ord"
begin

section \<open>The pi-day notebook: phase estimation of pi\<close>

text \<open>
  The code cells of \<^verbatim>\<open>notebooks/ch-demos/piday-code.ipynb\<close> define four functions:
  \<^verbatim>\<open>qft_dagger\<close>, \<^verbatim>\<open>qpe_pre\<close>, \<^verbatim>\<open>run_job\<close> and \<^verbatim>\<open>get_pi_estimate\<close>. The first two
  place gates on a circuit object of the quantum SDK, the third hands a circuit to the
  SDK and returns the counts mapping of the result, the last one builds the circuit,
  runs it and turns the most frequent bit-string into an estimate of pi.

  Modelling decisions.
  \<^item> A circuit is the log of the gate-placement calls made on it, together with
    the sizes given to its constructor. The SDK's own validation of qubit indices is not
    modelled.
  \<^item> Qubit counts and qubit indices are natural numbers.
  \<^item> A Python exception is a value of type \<open>error\<close>; a computation that may raise
    returns \<open>error + 'a\<close> with \<open>Inl\<close> for the exception.
  \<^item> Python floats are modelled by the real numbers: an operation returns the exact
    result, rounding is not modelled. What is modelled of floating point are its
    exceptions: the conversion of an integer to a float and the true division of two
    integers raise \<^verbatim>\<open>OverflowError\<close> beyond the range of a double, and a division by
    zero raises \<^verbatim>\<open>ZeroDivisionError\<close>. A product of floats beyond that range is
    \<^verbatim>\<open>inf\<close> without an exception; the one place where it can occur is modelled.
  \<^item> The SDK functions called by \<^verbatim>\<open>run_job\<close> are parameters, collected in a record;
    each of them may fail with any exception.
\<close>

subsection \<open>Exceptions\<close>

datatype error = ValueError | ZeroDivisionError | OverflowError | SdkError string

definition ebind :: "error + 'a \<Rightarrow> ('a \<Rightarrow> error + 'b) \<Rightarrow> error + 'b" where
  "ebind r f = (case r of Inl e \<Rightarrow> Inl e | Inr x \<Rightarrow> f x)"

text \<open>A \<^verbatim>\<open>for\<close> loop whose body may raise: the first exception ends the loop.\<close>

fun efold :: "('s \<Rightarrow> 'a \<Rightarrow> error + 's) \<Rightarrow> 's \<Rightarrow> 'a list \<Rightarrow> error + 's" where
  "efold f s [] = Inr s"
| "efold f s (x # xs) = (case f s x of Inl e \<Rightarrow> Inl e | Inr s' \<Rightarrow> efold f s' xs)"

subsection \<open>Python arithmetic\<close>

text \<open>
  \<^verbatim>\<open>float(k)\<close> for an integer \<open>k\<close>: the largest double is \<open>2^1024 - 2^971\<close>, and an
  integer from \<open>2^1024 - 2^970\<close> on would round to \<open>2^1024\<close>, where Python raises
  \<^verbatim>\<open>OverflowError\<close>.
\<close>

definition float_overflows :: "real \<Rightarrow> bool" where
  "float_overflows x \<longleftrightarrow> 2 ^ 1024 - 2 ^ 970 \<le> \<bar>x\<bar>"

definition py_float :: "int \<Rightarrow> error + real" where
  "py_float k = (if float_overflows (real_of_int k) then Inl OverflowError
                 else Inr (real_of_int k))"

text \<open>
  \<^verbatim>\<open>a / b\<close> for two integers (true division): \<^verbatim>\<open>ZeroDivisionError\<close> for a divisor of
  zero, \<^verbatim>\<open>OverflowError\<close> for a quotient beyond the range of a float.
\<close>

definition py_truediv :: "int \<Rightarrow> int \<Rightarrow> error + real" where
  "py_truediv a b =
     (if b = 0 then Inl ZeroDivisionError
      else if float_overflows (real_of_int a / real_of_int b) then Inl OverflowError
      else Inr (real_of_int a / real_of_int b))"

text \<open>
  \<^verbatim>\<open>x / y\<close> for two floats: \<^verbatim>\<open>ZeroDivisionError\<close> for a divisor of zero is its only
  exception.

  A float also rounds a nonzero number of magnitude at most \<open>2^-1075\<close> to zero. This is part of the rounding
  that the model leaves out, and it does not occur in \<^verbatim>\<open>get_pi_estimate\<close>: the arithmetic
  there is reached for at most 1024 qubits only (see \<open>get_pi_estimate_circuit_Inr_iff\<close>
  below), where the quotient of a nonzero measured integer by \<open>2^n\<close> is at least \<open>2^-1024\<close>.
\<close>

definition py_fdiv :: "real \<Rightarrow> real \<Rightarrow> error + real" where
  "py_fdiv x y = (if y = 0 then Inl ZeroDivisionError else Inr (x / y))"

subsection \<open>Circuits\<close>

datatype gate =
    GH nat
  | GX nat
  | GCP real nat nat
  | GSwap nat nat
  | GBarrier
  | GMeasure nat nat

record circuit =
  num_qubits :: nat
  num_clbits :: nat
  instrs :: "gate list"

definition QuantumCircuit :: "nat \<Rightarrow> nat \<Rightarrow> circuit" where
  "QuantumCircuit nq nc = \<lparr>num_qubits = nq, num_clbits = nc, instrs = []\<rparr>"

definition append_gate :: "circuit \<Rightarrow> gate \<Rightarrow> circuit" where
  "append_gate circ g = circ\<lparr>instrs := instrs circ @ [g]\<rparr>"

text \<open>
  The gate methods. \<^verbatim>\<open>circ.h(range(n))\<close> and \<^verbatim>\<open>circ.measure(range(n), range(n))\<close> are
  the SDK's broadcast forms: one gate for each element, in order.
\<close>

definition circ_h :: "circuit \<Rightarrow> nat \<Rightarrow> circuit" where
  "circ_h circ q = append_gate circ (GH q)"

definition circ_h_range :: "circuit \<Rightarrow> nat list \<Rightarrow> circuit" where
  "circ_h_range circ qs = foldl circ_h circ qs"

definition circ_x :: "circuit \<Rightarrow> nat \<Rightarrow> circuit" where
  "circ_x circ q = append_gate circ (GX q)"

definition circ_cp :: "circuit \<Rightarrow> real \<Rightarrow> nat \<Rightarrow> nat \<Rightarrow> circuit" where
  "circ_cp circ theta c t = append_gate circ (GCP theta c t)"

definition circ_swap :: "circuit \<Rightarrow> nat \<Rightarrow> nat \<Rightarrow> circuit" where
  "circ_swap circ a b = append_gate circ (GSwap a b)"

definition circ_barrier :: "circuit \<Rightarrow> circuit" where
  "circ_barrier circ = append_gate circ GBarrier"

definition circ_measure_range :: "circuit \<Rightarrow> nat list \<Rightarrow> nat list \<Rightarrow> circuit" where
  "circ_measure_range circ qs cs =
     foldl (\<lambda>c (q, b). append_gate c (GMeasure q b)) circ (zip qs cs)"

subsection \<open>\<^verbatim>\<open>qpe_pre\<close>\<close>

text \<open>
  \<^verbatim>\<open>
  def qpe_pre(circ_, n_qubits):
      circ_.h(range(n_qubits))
      circ_.x(n_qubits)
      for x in reversed(range(n_qubits)):
          for _ in range(2**(n_qubits-1-x)):
              circ_.cp(1, n_qubits-1-x, n_qubits)
  \<close>
\<close>

definition qpe_pre :: "circuit \<Rightarrow> nat \<Rightarrow> circuit" where
  "qpe_pre circ n_qubits =
     (let c1 = circ_h_range circ [0..<n_qubits];
          c2 = circ_x c1 n_qubits
      in foldl (\<lambda>c xq.
           foldl (\<lambda>c' _. circ_cp c' 1 (n_qubits - 1 - xq) n_qubits) c
                 [0..<2 ^ (n_qubits - 1 - xq)])
         c2 (rev [0..<n_qubits]))"

subsection \<open>\<^verbatim>\<open>qft_dagger\<close>\<close>

text \<open>
  \<^verbatim>\<open>
  def qft_dagger(circ_, n_qubits):
      for qubit in range(int(n_qubits/2)):
          circ_.swap(qubit, n_qubits-qubit-1)
      for j in range(0,n_qubits):
          for m in range(j):
              circ_.cp(-np.pi/float(2**(j-m)), m, j)
          circ_.h(j)
  \<close>
  \<^verbatim>\<open>int(n_qubits/2)\<close> is \<open>n_qubits div 2\<close> as long as the float division is exact, which
  it is below \<open>2^53\<close>. For a larger \<open>n_qubits\<close> the call raises \<^verbatim>\<open>OverflowError\<close> in any
  case, in the second loop (see \<open>qft_dagger_overflow\<close> below) if not in this division, so
  that the number of swaps does not show in the result. The exception leaves the
  function before the call of \<^verbatim>\<open>cp\<close>; the gates placed until then are lost with the
  result.
\<close>

text \<open>The body of the inner loop, for the indices \<open>j\<close> and \<open>m\<close>.\<close>

definition qft_dagger_cp :: "nat \<Rightarrow> circuit \<Rightarrow> nat \<Rightarrow> error + circuit" where
  "qft_dagger_cp j circ m =
     ebind (py_float (2 ^ (j - m))) (\<lambda>d.
     ebind (py_fdiv (- pi) d) (\<lambda>theta.
     Inr (circ_cp circ theta m j)))"

text \<open>The body of the outer loop, for the index \<open>j\<close>.\<close>

definition qft_dagger_row :: "circuit \<Rightarrow> nat \<Rightarrow> error + circuit" where
  "qft_dagger_row circ j =
     ebind (efold (qft_dagger_cp j) circ [0..<j]) (\<lambda>c. Inr (circ_h c j))"

definition qft_dagger :: "circuit \<Rightarrow> nat \<Rightarrow> error + circuit" where
  "qft_dagger circ n_qubits =
     (let c1 = foldl (\<lambda>c qubit. circ_swap c qubit (n_qubits - qubit - 1)) circ
                 [0..<n_qubits div 2]
      in efold qft_dagger_row c1 [0..<n_qubits])"

subsection \<open>\<^verbatim>\<open>run_job\<close> and the SDK\<close>

text \<open>
  The counts mapping of a result is a Python dictionary from bit-strings to integers. It
  is modelled by the list of its items in the order of iteration; \<^verbatim>\<open>counts.get\<close> looks a
  key up and returns \<open>None\<close> for a key that is not there.
\<close>

type_synonym counts = "(string \<times> int) list"

definition keys :: "counts \<Rightarrow> string list" where
  "keys cnts = map fst cnts"

definition counts_get :: "counts \<Rightarrow> string \<Rightarrow> int option" where
  "counts_get cnts k = map_of cnts k"

text \<open>
  The SDK is not part of the repository. Its functions are the fields of a record; the
  types of a transpiled circuit, of an assembled job description, of a job and of a
  result are type parameters. \<open>simulator\<close> is the notebook's global of that name. A
  record stands for the SDK during one call of \<^verbatim>\<open>get_pi_estimate\<close>: it gives the outcome
  of each function on the arguments the call passes, a value or an exception.
\<close>

record ('q, 'j) backend =
  run :: "'q \<Rightarrow> error + 'j"

record ('t, 'q, 'j, 'r) sdk =
  transpile :: "circuit \<Rightarrow> ('q, 'j) backend \<Rightarrow> nat \<Rightarrow> error + 't"
  assemble :: "'t \<Rightarrow> nat \<Rightarrow> error + 'q"
  job_monitor :: "'j \<Rightarrow> error + unit"
  job_result :: "'j \<Rightarrow> error + 'r"
  get_counts :: "'r \<Rightarrow> error + counts"
  simulator :: "('q, 'j) backend"

text \<open>
  \<^verbatim>\<open>
  def run_job(circ, backend, shots=1000, optimization_level=0):
      t_circ = transpile(circ, backend, optimization_level=optimization_level)
      qobj = assemble(t_circ, shots=shots)
      job = backend.run(qobj)
      job_monitor(job)
      return job.result().get_counts()
  \<close>
\<close>

definition run_job ::
  "('t, 'q, 'j, 'r) sdk \<Rightarrow> circuit \<Rightarrow> ('q, 'j) backend \<Rightarrow> nat \<Rightarrow> nat \<Rightarrow> error + counts" where
  "run_job sdk circ backend shots optimization_level =
     ebind (transpile sdk circ backend optimization_level) (\<lambda>t_circ.
     ebind (assemble sdk t_circ shots) (\<lambda>qobj.
     ebind (run backend qobj) (\<lambda>job.
     ebind (job_monitor sdk job) (\<lambda>_.
     ebind (job_result sdk job) (\<lambda>res.
     get_counts sdk res)))))"

subsection \<open>\<^verbatim>\<open>get_pi_estimate\<close>\<close>

text \<open>
  \<^verbatim>\<open>max(xs, key=f)\<close>: \<^verbatim>\<open>ValueError\<close> on an empty sequence; otherwise the first
  element is the candidate, and a later element replaces it when its key is greater.
  With \<^verbatim>\<open>counts.get\<close> as the key function the keys are optional integers; every
  key of the dictionary has a value, so that \<open>None\<close> is never compared.
\<close>

fun py_max_from :: "('a \<Rightarrow> 'b::linorder) \<Rightarrow> 'a \<Rightarrow> 'a list \<Rightarrow> 'a" where
  "py_max_from f best [] = best"
| "py_max_from f best (y # ys) = py_max_from f (if f best < f y then y else best) ys"

definition py_max :: "('a \<Rightarrow> 'b::linorder) \<Rightarrow> 'a list \<Rightarrow> error + 'a" where
  "py_max f xs = (case xs of [] \<Rightarrow> Inl ValueError | y # ys \<Rightarrow> Inr (py_max_from f y ys))"

text \<open>
  \<^verbatim>\<open>int(s, 2)\<close> on the keys of a counts mapping, which are bit-strings: words over the
  characters \<^verbatim>\<open>0\<close> and \<^verbatim>\<open>1\<close>. On such a word the result is its value in base 2, and
  the empty word raises \<^verbatim>\<open>ValueError\<close>. Python accepts some more forms (a sign, a
  prefix \<^verbatim>\<open>0b\<close>, blanks around the word, underscores between digits); they are
  outside this model, which is used on bit-strings only.
\<close>

definition is_bit :: "char \<Rightarrow> bool" where
  "is_bit c \<longleftrightarrow> c = CHR ''0'' \<or> c = CHR ''1''"

definition is_bitstring :: "string \<Rightarrow> bool" where
  "is_bitstring s \<longleftrightarrow> s \<noteq> [] \<and> list_all is_bit s"

definition bin_value :: "string \<Rightarrow> int" where
  "bin_value s = foldl (\<lambda>acc c. 2 * acc + (if c = CHR ''1'' then 1 else 0)) 0 s"

definition py_int_base2 :: "string \<Rightarrow> error + int" where
  "py_int_base2 s = (if is_bitstring s then Inr (bin_value s) else Inl ValueError)"

text \<open>
  \<^verbatim>\<open>
  def get_pi_estimate(n_qubits):
      circ = QuantumCircuit(n_qubits + 1, n_qubits)
      qpe_pre(circ, n_qubits)
      circ.barrier()
      qft_dagger(circ, n_qubits)
      circ.barrier()
      circ.measure(range(n_qubits), range(n_qubits))
      counts = run_job(circ, backend=simulator, shots=10000, optimization_level=0)
      max_counts_result = max(counts, key=counts.get)
      max_counts_result = int(max_counts_result, 2)
      theta = max_counts_result/2**n_qubits
      return (1./(2*theta))
  \<close>
  The body is split in three: the construction of the circuit, the selection of the
  most frequent bit-string, and the arithmetic of the last two lines.
\<close>

definition get_pi_estimate_circuit :: "nat \<Rightarrow> error + circuit" where
  "get_pi_estimate_circuit n_qubits =
     (let circ = QuantumCircuit (n_qubits + 1) n_qubits;
          c1 = qpe_pre circ n_qubits;
          c2 = circ_barrier c1
      in ebind (qft_dagger c2 n_qubits) (\<lambda>c3.
         let c4 = circ_barrier c3
         in Inr (circ_measure_range c4 [0..<n_qubits] [0..<n_qubits])))"

definition most_frequent :: "counts \<Rightarrow> error + int" where
  "most_frequent cnts =
     ebind (py_max (counts_get cnts) (keys cnts)) (\<lambda>max_counts_result.
     py_int_base2 max_counts_result)"

text \<open>
  In the last line the product \<^verbatim>\<open>2*theta\<close> raises nothing: a product beyond the range of
  a float is \<^verbatim>\<open>inf\<close>, and \<^verbatim>\<open>1./inf\<close> is \<^verbatim>\<open>0.0\<close>.
\<close>

definition solve_for_pi :: "nat \<Rightarrow> int \<Rightarrow> error + real" where
  "solve_for_pi n_qubits max_counts_result =
     ebind (py_truediv max_counts_result (2 ^ n_qubits)) (\<lambda>theta.
     if float_overflows (2 * theta) then Inr 0 else py_fdiv 1 (2 * theta))"

definition get_pi_estimate :: "('t, 'q, 'j, 'r) sdk \<Rightarrow> nat \<Rightarrow> error + real" where
  "get_pi_estimate sdk n_qubits =
     ebind (get_pi_estimate_circuit n_qubits) (\<lambda>circ.
     ebind (run_job sdk circ (simulator sdk) 10000 0) (\<lambda>cnts.
     ebind (most_frequent cnts) (\<lambda>max_counts_result.
     solve_for_pi n_qubits max_counts_result)))"

subsection \<open>Vocabulary of the properties\<close>

definition is_cp :: "gate \<Rightarrow> bool" where
  "is_cp g = (case g of GCP _ _ _ \<Rightarrow> True | _ \<Rightarrow> False)"

text \<open>
  The qubits a gate acts on, in a circuit of \<open>nq\<close> qubits; a barrier placed without
  arguments spans all of them.
\<close>

fun gate_qubits :: "nat \<Rightarrow> gate \<Rightarrow> nat list" where
  "gate_qubits nq (GH q) = [q]"
| "gate_qubits nq (GX q) = [q]"
| "gate_qubits nq (GCP theta c t) = [c, t]"
| "gate_qubits nq (GSwap a b) = [a, b]"
| "gate_qubits nq GBarrier = [0..<nq]"
| "gate_qubits nq (GMeasure q b) = [q]"

text \<open>The measurements of a circuit, as pairs of a qubit and a classical bit.\<close>

fun measurements :: "gate list \<Rightarrow> (nat \<times> nat) list" where
  "measurements [] = []"
| "measurements (GMeasure q b # gs) = (q, b) # measurements gs"
| "measurements (g # gs) = measurements gs"

text \<open>A key whose count is above all others.\<close>

definition is_unique_max_key :: "counts \<Rightarrow> string \<Rightarrow> bool" where
  "is_unique_max_key cnts k \<longleftrightarrow>
     k \<in> set (keys cnts) \<and>
     list_all (\<lambda>k'. k' = k \<or> counts_get cnts k' < counts_get cnts k) (keys cnts)"

text \<open>
  An SDK for testing: every call returns at once, \<^verbatim>\<open>job_monitor\<close> with a given outcome
  and \<^verbatim>\<open>get_counts\<close> with a given outcome.
\<close>

definition stub_sdk :: "error + unit \<Rightarrow> error + counts \<Rightarrow> (unit, unit, unit, unit) sdk" where
  "stub_sdk mon res =
     \<lparr>transpile = (\<lambda>_ _ _. Inr ()), assemble = (\<lambda>_ _. Inr ()),
      job_monitor = (\<lambda>_. mon), job_result = (\<lambda>_. Inr ()),
      get_counts = (\<lambda>_. res), simulator = \<lparr>run = (\<lambda>_. Inr ())\<rparr>\<rparr>"

text \<open>
  The SDK raises \<open>e\<close> in one of the calls that \<^verbatim>\<open>run_job\<close> makes: in the transpilation,
  in the assembly, in the submission of the job, in its monitoring, or in the retrieval of
  the result and of its counts, the calls before it having returned.
\<close>

definition sdk_raises ::
  "('t, 'q, 'j, 'r) sdk \<Rightarrow> circuit \<Rightarrow> ('q, 'j) backend \<Rightarrow> nat \<Rightarrow> nat \<Rightarrow> error \<Rightarrow> bool" where
  "sdk_raises sdk circ backend shots optimization_level e \<longleftrightarrow>
     transpile sdk circ backend optimization_level = Inl e
   \<or> (\<exists>t_circ. transpile sdk circ backend optimization_level = Inr t_circ
       \<and> (assemble sdk t_circ shots = Inl e
   \<or> (\<exists>qobj. assemble sdk t_circ shots = Inr qobj
       \<and> (run backend qobj = Inl e
   \<or> (\<exists>job. run backend qobj = Inr job
       \<and> (job_monitor sdk job = Inl e
   \<or> (job_monitor sdk job = Inr ()
       \<and> (job_result sdk job = Inl e
   \<or> (\<exists>res. job_result sdk job = Inr res
       \<and> get_counts sdk res = Inl e)))))))))"

text \<open>
  The measurement to expect from a noiseless run. The notebook's text says of the
  circuit: ``From the output of the QPE algorithm, we measure an estimate for
  \<open>2^n \<theta>\<close>'', and ``\<open>2 \<pi> \<theta> = 1\<close>''. The \<open>n\<close> measured bits hold an integer, so that
  the most probable outcome is the integer nearest to \<open>2^n / (2 \<pi>)\<close>.
\<close>

definition expected_measurement :: "nat \<Rightarrow> int" where
  "expected_measurement n = round (2 ^ n / (2 * pi))"

section \<open>Gate placement\<close>

subsection \<open>Loops that append gates\<close>

lemma foldl_append_gate:
  "foldl (\<lambda>c y. append_gate c (g y)) circ xs = circ\<lparr>instrs := instrs circ @ map g xs\<rparr>"
  by (induction xs arbitrary: circ) (simp_all add: append_gate_def)

lemma foldl_append_block:
  "foldl (\<lambda>c y. c\<lparr>instrs := instrs c @ F y\<rparr>) circ xs
     = circ\<lparr>instrs := instrs circ @ concat (map F xs)\<rparr>"
  by (induction xs arbitrary: circ) simp_all

lemma efold_append:
  "efold f s (xs @ ys) = ebind (efold f s xs) (\<lambda>s'. efold f s' ys)"
  by (induction xs arbitrary: s) (simp_all add: ebind_def split: sum.splits)

lemma efold_blocks:
  "(\<And>y c. y \<in> set xs \<Longrightarrow> f c y = Inr (c\<lparr>instrs := instrs c @ F y\<rparr>))
   \<Longrightarrow> efold f circ xs = Inr (circ\<lparr>instrs := instrs circ @ concat (map F xs)\<rparr>)"
  by (induction xs arbitrary: circ) simp_all

lemma circ_h_range_instrs:
  "circ_h_range circ qs = circ\<lparr>instrs := instrs circ @ map GH qs\<rparr>"
  unfolding circ_h_range_def
  by (induction qs arbitrary: circ) (simp_all add: circ_h_def append_gate_def)

lemma cp_loop:
  "foldl (\<lambda>c' _. circ_cp c' theta k t) c xs
     = c\<lparr>instrs := instrs c @ replicate (length xs) (GCP theta k t)\<rparr>"
  unfolding circ_cp_def by (simp add: foldl_append_gate map_replicate_const)

lemma swap_loop:
  "foldl (\<lambda>c qubit. circ_swap c qubit (n - qubit - 1)) circ qs
     = circ\<lparr>instrs := instrs circ @ map (\<lambda>q. GSwap q (n - q - 1)) qs\<rparr>"
  unfolding circ_swap_def by (rule foldl_append_gate)

subsection \<open>\<^verbatim>\<open>qpe_pre\<close>\<close>

text \<open>
  The outer loop of \<^verbatim>\<open>qpe_pre\<close> runs \<open>x\<close> downwards from \<open>n - 1\<close> to \<open>0\<close> and uses
  \<open>n - 1 - x\<close> only, which therefore runs upwards from \<open>0\<close> to \<open>n - 1\<close>.
\<close>

lemma map_mirror_rev_upt: "map (\<lambda>i. n - 1 - i) (rev [0..<n]) = [0..<n]"
  by (rule nth_equalityI) (auto simp: rev_nth)

lemma concat_map_mirror:
  "concat (map (\<lambda>xq. F (n - 1 - xq)) (rev [0..<n])) = concat (map F [0..<n])"
proof -
  have "map (\<lambda>xq. F (n - 1 - xq)) (rev [0..<n]) = map F (map (\<lambda>i. n - 1 - i) (rev [0..<n]))"
    by (simp only: map_map comp_def)
  then show ?thesis
    by (simp only: map_mirror_rev_upt)
qed

lemma qpe_pre_instrs:
  "qpe_pre circ n = circ\<lparr>instrs := instrs circ @ map GH [0..<n] @ [GX n]
       @ concat (map (\<lambda>c. replicate (2 ^ c) (GCP 1 c n)) [0..<n])\<rparr>"
proof -
  have loop: "foldl (\<lambda>c xq. foldl (\<lambda>c' _. circ_cp c' 1 (n - 1 - xq) n) c [0..<2 ^ (n - 1 - xq)]) c2
                (rev [0..<n])
      = c2\<lparr>instrs := instrs c2 @ concat (map (\<lambda>c. replicate (2 ^ c) (GCP 1 c n)) [0..<n])\<rparr>"
    for c2
    by (simp only: cp_loop length_upt diff_zero foldl_append_block
          concat_map_mirror [where F = "\<lambda>c. replicate (2 ^ c) (GCP 1 c n)"])
  show ?thesis
    unfolding qpe_pre_def Let_def loop
    by (simp add: circ_h_range_instrs circ_x_def append_gate_def)
qed

lemma length_cp_blocks:
  "length (concat (map (\<lambda>c. replicate (2 ^ c) (g c)) [0..<n])) = 2 ^ n - 1"
  by (induction n) (simp_all add: length_concat)

lemma filter_is_cp_blocks:
  "filter is_cp (map GH qs @ [GX t] @ concat (map (\<lambda>c. replicate (2 ^ c) (GCP th c t)) cs))
     = concat (map (\<lambda>c. replicate (2 ^ c) (GCP th c t)) cs)"
proof -
  have "filter is_cp (map GH qs) = []"
    by (induction qs) (simp_all add: is_cp_def)
  moreover have "filter is_cp (concat (map (\<lambda>c. replicate (2 ^ c) (GCP th c t)) cs))
      = concat (map (\<lambda>c. replicate (2 ^ c) (GCP th c t)) cs)"
    by (induction cs) (simp_all add: is_cp_def)
  ultimately show ?thesis
    by (simp add: is_cp_def)
qed

text \<open>
  C4. On a circuit \<open>circ\<close>, \<^verbatim>\<open>qpe_pre\<close> with qubit count \<open>n\<close> appends, in this order: a
  Hadamard gate on each of the qubits \<open>0, ..., n - 1\<close>, an X gate on qubit \<open>n\<close>, and for
  the control qubits \<open>c = 0, ..., n - 1\<close> in increasing order \<open>2 ^ c\<close> controlled-phase
  gates of angle \<open>1\<close> with control \<open>c\<close> and target \<open>n\<close>. Nothing else of the circuit
  changes, and the controlled-phase gates placed are \<open>2 ^ n - 1\<close> in number. This holds
  for every \<open>n\<close>, in particular for \<open>n \<ge> 1\<close>.
\<close>

theorem qpe_pre_pattern:
  "qpe_pre circ n = circ\<lparr>instrs := instrs circ @ map GH [0..<n] @ [GX n]
       @ concat (map (\<lambda>c. replicate (2 ^ c) (GCP 1 c n)) [0..<n])\<rparr>
   \<and> length (filter is_cp (drop (length (instrs circ)) (instrs (qpe_pre circ n)))) = 2 ^ n - 1"
proof
  show "qpe_pre circ n = circ\<lparr>instrs := instrs circ @ map GH [0..<n] @ [GX n]
       @ concat (map (\<lambda>c. replicate (2 ^ c) (GCP 1 c n)) [0..<n])\<rparr>"
    by (rule qpe_pre_instrs)
  have "drop (length (instrs circ)) (instrs (qpe_pre circ n))
      = map GH [0..<n] @ [GX n] @ concat (map (\<lambda>c. replicate (2 ^ c) (GCP 1 c n)) [0..<n])"
    by (simp add: qpe_pre_instrs)
  then show "length (filter is_cp (drop (length (instrs circ)) (instrs (qpe_pre circ n))))
      = 2 ^ n - 1"
    by (simp only: filter_is_cp_blocks length_cp_blocks)
qed

subsection \<open>\<^verbatim>\<open>qft_dagger\<close>\<close>

text \<open>
  The only call of \<^verbatim>\<open>qft_dagger\<close> that can raise is \<^verbatim>\<open>float(2**(j-m))\<close>. It raises
  when \<open>j - m\<close> reaches \<open>1024\<close>, which happens first for \<open>j = 1024\<close> and \<open>m = 0\<close>.
\<close>

lemma float_overflows_pow2: "float_overflows (2 ^ d) \<longleftrightarrow> 1024 \<le> d"
proof (cases "1024 \<le> d")
  case True
  then have "(2::real) ^ 1024 \<le> 2 ^ d"
    by (intro power_increasing) simp_all
  moreover have "(0::real) < 2 ^ 970" by simp
  ultimately show ?thesis
    using True unfolding float_overflows_def by simp
next
  case False
  then have "d \<le> 1023" by simp
  then have "(2::real) ^ d \<le> 2 ^ 1023"
    by (intro power_increasing) simp_all
  moreover have "(2::real) ^ 970 < 2 ^ 1023"
    by (intro power_strict_increasing) simp_all
  moreover have "(2::real) ^ 1024 = 2 * 2 ^ 1023"
    by (simp only: power_Suc [symmetric]) simp
  ultimately show ?thesis
    using False unfolding float_overflows_def by simp
qed

lemma py_float_pow2:
  "py_float (2 ^ d) = (if 1024 \<le> d then Inl OverflowError else Inr (2 ^ d))"
  by (simp add: py_float_def float_overflows_pow2)

lemma qft_dagger_cp_ok:
  "j - m < 1024 \<Longrightarrow>
   qft_dagger_cp j c m = Inr (c\<lparr>instrs := instrs c @ [GCP (- pi / 2 ^ (j - m)) m j]\<rparr>)"
  by (simp add: qft_dagger_cp_def py_float_pow2 ebind_def py_fdiv_def circ_cp_def append_gate_def)

lemma qft_dagger_cp_overflow:
  "1024 \<le> j - m \<Longrightarrow> qft_dagger_cp j c m = Inl OverflowError"
  by (simp add: qft_dagger_cp_def py_float_pow2 ebind_def)

lemma qft_dagger_row_ok:
  assumes "j < 1024"
  shows "qft_dagger_row c j
     = Inr (c\<lparr>instrs := instrs c @ (map (\<lambda>m. GCP (- pi / 2 ^ (j - m)) m j) [0..<j] @ [GH j])\<rparr>)"
proof -
  have "j - m < 1024" for m using assms by simp
  then have "efold (qft_dagger_cp j) c [0..<j]
      = Inr (c\<lparr>instrs := instrs c @ concat (map (\<lambda>m. [GCP (- pi / 2 ^ (j - m)) m j]) [0..<j])\<rparr>)"
    by (intro efold_blocks qft_dagger_cp_ok)
  then show ?thesis
    by (simp add: qft_dagger_row_def ebind_def circ_h_def append_gate_def concat_map_singleton)
qed

lemma qft_dagger_row_overflow:
  assumes "1024 \<le> j"
  shows "qft_dagger_row c j = Inl OverflowError"
proof -
  from assms have "[0..<j] = 0 # [Suc 0..<j]"
    using upt_conv_Cons [of 0 j] by simp
  moreover from assms have "qft_dagger_cp j c 0 = Inl OverflowError"
    by (simp add: qft_dagger_cp_overflow)
  ultimately show ?thesis
    by (simp add: qft_dagger_row_def ebind_def)
qed

lemma qft_dagger_instrs:
  assumes "n \<le> 1024"
  shows "qft_dagger circ n = Inr (circ\<lparr>instrs := instrs circ
            @ map (\<lambda>q. GSwap q (n - 1 - q)) [0..<n div 2]
            @ concat (map (\<lambda>j. map (\<lambda>m. GCP (- pi / 2 ^ (j - m)) m j) [0..<j] @ [GH j])
                          [0..<n])\<rparr>)"
proof -
  have "efold qft_dagger_row c [0..<n]
      = Inr (c\<lparr>instrs := instrs c
           @ concat (map (\<lambda>j. map (\<lambda>m. GCP (- pi / 2 ^ (j - m)) m j) [0..<j] @ [GH j]) [0..<n])\<rparr>)"
    for c
    using assms by (intro efold_blocks qft_dagger_row_ok) simp
  then show ?thesis
    unfolding qft_dagger_def Let_def swap_loop by simp
qed

lemma upt_split_at: "k < n \<Longrightarrow> [0..<n] = [0..<k] @ k # [Suc k..<n]"
  using upt_add_eq_append [of 0 k "n - k"] by (simp add: upt_conv_Cons)

lemma efold_raises_at:
  assumes "efold f s xs = Inr s'" and "f s' y = Inl e"
  shows "efold f s (xs @ y # ys) = Inl e"
  using assms by (simp add: efold_append ebind_def)

lemma efold_rows_ok:
  assumes "k \<le> 1024"
  shows "efold qft_dagger_row c [0..<k]
      = Inr (c\<lparr>instrs := instrs c
           @ concat (map (\<lambda>j. map (\<lambda>m. GCP (- pi / 2 ^ (j - m)) m j) [0..<j] @ [GH j]) [0..<k])\<rparr>)"
  using assms by (intro efold_blocks qft_dagger_row_ok) simp

lemma qft_dagger_overflow:
  assumes "1024 < n"
  shows "qft_dagger circ n = Inl OverflowError"
proof -
  define k :: nat where "k = 1024"
  have k: "k \<le> 1024" "1024 \<le> k" "k < n"
    using assms by (simp_all add: k_def)
  have "efold qft_dagger_row c ([0..<k] @ k # [Suc k..<n]) = Inl OverflowError" for c
    using efold_rows_ok [OF k(1)] qft_dagger_row_overflow [OF k(2)]
    by (rule efold_raises_at)
  then have "efold qft_dagger_row c [0..<n] = Inl OverflowError" for c
    by (simp only: upt_split_at [OF k(3), symmetric])
  then show ?thesis
    unfolding qft_dagger_def Let_def by simp
qed

text \<open>
  C5, as the claim states it, for every \<open>n\<close>. It fails for \<open>n = 1025\<close>: the call raises
  \<^verbatim>\<open>OverflowError\<close> in the row \<open>j = 1024\<close> and returns no circuit.
\<close>

theorem qft_dagger_1025_raises:
  "qft_dagger (QuantumCircuit 1025 0) 1025 = Inl OverflowError"
  by (rule qft_dagger_overflow) simp

text \<open>
  C5, amended. For every \<open>n\<close> from \<open>0\<close> to \<open>1024\<close>, \<^verbatim>\<open>qft_dagger\<close> appends to the circuit,
  in this order: \<open>n div 2\<close> swap gates exchanging qubit \<open>q\<close> with qubit \<open>n - 1 - q\<close> for
  \<open>q = 0, ..., n div 2 - 1\<close>, and then for each \<open>j = 0, ..., n - 1\<close> the controlled-phase
  gates of angle \<open>- \<pi> / 2 ^ (j - m)\<close> with control \<open>m\<close> and target \<open>j\<close> for
  \<open>m = 0, ..., j - 1\<close>, followed by a Hadamard gate on qubit \<open>j\<close>. Every gate appended
  acts on qubits below \<open>n\<close> only.
\<close>

theorem qft_dagger_pattern:
  assumes "n \<le> 1024"
  shows "qft_dagger circ n = Inr (circ\<lparr>instrs := instrs circ
            @ map (\<lambda>q. GSwap q (n - 1 - q)) [0..<n div 2]
            @ concat (map (\<lambda>j. map (\<lambda>m. GCP (- pi / 2 ^ (j - m)) m j) [0..<j] @ [GH j])
                          [0..<n])\<rparr>)
       \<and> (\<forall>g \<in> set (map (\<lambda>q. GSwap q (n - 1 - q)) [0..<n div 2]
            @ concat (map (\<lambda>j. map (\<lambda>m. GCP (- pi / 2 ^ (j - m)) m j) [0..<j] @ [GH j])
                          [0..<n])).
            \<forall>q \<in> set (gate_qubits (num_qubits circ) g). q < n)"
proof
  show "qft_dagger circ n = Inr (circ\<lparr>instrs := instrs circ
            @ map (\<lambda>q. GSwap q (n - 1 - q)) [0..<n div 2]
            @ concat (map (\<lambda>j. map (\<lambda>m. GCP (- pi / 2 ^ (j - m)) m j) [0..<j] @ [GH j])
                          [0..<n])\<rparr>)"
    using assms by (rule qft_dagger_instrs)
  show "\<forall>g \<in> set (map (\<lambda>q. GSwap q (n - 1 - q)) [0..<n div 2]
            @ concat (map (\<lambda>j. map (\<lambda>m. GCP (- pi / 2 ^ (j - m)) m j) [0..<j] @ [GH j])
                          [0..<n])).
            \<forall>q \<in> set (gate_qubits (num_qubits circ) g). q < n"
    by auto
qed

theorem qft_dagger_pattern_witness:
  "(2::nat) \<le> 1024 \<and>
   qft_dagger (QuantumCircuit 2 0) 2
     = Inr \<lparr>num_qubits = 2, num_clbits = 0,
            instrs = [GSwap 0 1, GH 0, GCP (- pi / 2) 0 1, GH 1]\<rparr>"
  using qft_dagger_pattern [of 2 "QuantumCircuit 2 0"]
  by (simp add: QuantumCircuit_def numeral_2_eq_2)

section \<open>Post-processing\<close>

subsection \<open>The most frequent bit-string\<close>

lemma py_max_from_mem: "py_max_from f b ys \<in> set (b # ys)"
  by (induction ys arbitrary: b) auto

lemma py_max_from_ge_best: "f b \<le> f (py_max_from f b ys)"
proof (induction ys arbitrary: b)
  case Nil
  show ?case by simp
next
  case (Cons y ys)
  show ?case
  proof (cases "f b < f y")
    case True
    with Cons [of y] show ?thesis by simp
  next
    case False
    with Cons [of b] show ?thesis by simp
  qed
qed

lemma py_max_from_ge: "y \<in> set (b # ys) \<Longrightarrow> f y \<le> f (py_max_from f b ys)"
proof (induction ys arbitrary: b)
  case Nil
  then show ?case by simp
next
  case (Cons z zs)
  let ?b = "if f b < f z then z else b"
  have best: "f ?b \<le> f (py_max_from f ?b zs)"
    by (rule py_max_from_ge_best)
  from Cons.prems consider "y = b" | "y = z" | "y \<in> set zs" by auto
  then show ?case
  proof cases
    case 1
    with best show ?thesis by (auto split: if_splits)
  next
    case 2
    with best show ?thesis by (auto split: if_splits)
  next
    case 3
    then have "y \<in> set (?b # zs)" by simp
    from Cons.IH [OF this] show ?thesis by simp
  qed
qed

lemma py_max_from_unique:
  assumes "k \<in> set (b # ys)" and "\<And>y. y \<in> set (b # ys) \<Longrightarrow> y = k \<or> f y < f k"
  shows "py_max_from f b ys = k"
proof -
  let ?r = "py_max_from f b ys"
  have "?r \<in> set (b # ys)" by (rule py_max_from_mem)
  then have "?r = k \<or> f ?r < f k" by (rule assms(2))
  moreover have "f k \<le> f ?r" using assms(1) by (rule py_max_from_ge)
  ultimately show ?thesis by auto
qed

lemma py_max_empty: "py_max f [] = Inl ValueError"
  by (simp add: py_max_def)

lemma py_max_nonempty:
  assumes "xs \<noteq> []"
  shows "\<exists>k. py_max f xs = Inr k \<and> k \<in> set xs \<and> (\<forall>y \<in> set xs. f y \<le> f k)"
proof (cases xs)
  case Nil
  with assms show ?thesis by simp
next
  case (Cons b ys)
  have "py_max_from f b ys \<in> set (b # ys)" by (rule py_max_from_mem)
  moreover have "\<forall>y \<in> set (b # ys). f y \<le> f (py_max_from f b ys)"
    using py_max_from_ge [of _ b ys f] by blast
  ultimately show ?thesis
    unfolding Cons py_max_def by simp
qed

lemma py_max_unique:
  assumes "k \<in> set xs" and "\<And>y. y \<in> set xs \<Longrightarrow> y = k \<or> f y < f k"
  shows "py_max f xs = Inr k"
proof (cases xs)
  case Nil
  with assms(1) show ?thesis by simp
next
  case (Cons b ys)
  with assms have "py_max_from f b ys = k"
    by (intro py_max_from_unique) auto
  then show ?thesis
    unfolding Cons py_max_def by simp
qed

lemma py_max_keys_unique:
  assumes "is_unique_max_key cnts k"
  shows "py_max (counts_get cnts) (keys cnts) = Inr k"
  using assms unfolding is_unique_max_key_def list_all_iff
  by (intro py_max_unique) auto

subsection \<open>From the bit-string to the estimate\<close>

lemma bin_value_Nil: "bin_value [] = 0"
  by (simp add: bin_value_def)

lemma bin_value_snoc:
  "bin_value (s @ [c]) = 2 * bin_value s + (if c = CHR ''1'' then 1 else 0)"
  by (simp add: bin_value_def)

lemma bin_value_bounds: "0 \<le> bin_value s \<and> bin_value s < 2 ^ length s"
proof (induction s rule: rev_induct)
  case Nil
  show ?case by (simp add: bin_value_Nil)
next
  case (snoc c s)
  then show ?case by (simp add: bin_value_snoc)
qed

lemma bin_value_zero_iff: "bin_value s = 0 \<longleftrightarrow> CHR ''1'' \<notin> set s"
proof (induction s rule: rev_induct)
  case Nil
  show ?case by (simp add: bin_value_Nil)
next
  case (snoc c s)
  have nonneg: "0 \<le> bin_value s" using bin_value_bounds [of s] by simp
  show ?case
  proof (cases "c = CHR ''1''")
    case True
    with nonneg show ?thesis by (simp add: bin_value_snoc)
  next
    case False
    with snoc show ?thesis by (auto simp add: bin_value_snoc)
  qed
qed

lemma not_float_overflows_below_two: "\<bar>x\<bar> < 2 \<Longrightarrow> \<not> float_overflows x"
proof -
  have "(2::real) ^ 970 < 2 ^ 1022"
    by (intro power_strict_increasing) simp_all
  moreover have "(2::real) ^ 1 \<le> 2 ^ 1022"
    by (intro power_increasing) simp_all
  moreover have "(2::real) ^ 1024 = 2 ^ 2 * 2 ^ 1022"
    by (simp only: power_add [symmetric]) simp
  ultimately have "(2::real) < 2 ^ 1024 - 2 ^ 970" by simp
  then show "\<bar>x\<bar> < 2 \<Longrightarrow> \<not> float_overflows x"
    unfolding float_overflows_def by linarith
qed

lemma not_float_overflows_small: "\<bar>x\<bar> < 1 \<Longrightarrow> \<not> float_overflows x"
  by (rule not_float_overflows_below_two) simp

lemma solve_for_pi_cases:
  "solve_for_pi n m =
     (if float_overflows (real_of_int m / 2 ^ n) then Inl OverflowError
      else if float_overflows (2 * (real_of_int m / 2 ^ n)) then Inr 0
      else if m = 0 then Inl ZeroDivisionError
      else Inr (1 / (2 * (real_of_int m / 2 ^ n))))"
  by (simp add: solve_for_pi_def py_truediv_def py_fdiv_def ebind_def)

lemma solve_for_pi_in_range:
  assumes "0 < m" and "m < 2 ^ n"
  shows "solve_for_pi n m = Inr (1 / (2 * (real_of_int m / 2 ^ n)))"
proof -
  from assms have "real_of_int m < 2 ^ n"
    by (metis of_int_less_iff of_int_numeral of_int_power)
  with assms(1) have small: "\<bar>real_of_int m / 2 ^ n\<bar> < 1" by simp
  then have "\<not> float_overflows (real_of_int m / 2 ^ n)"
    by (rule not_float_overflows_small)
  moreover from small have "\<bar>2 * (real_of_int m / 2 ^ n)\<bar> < 2"
    unfolding abs_mult by linarith
  then have "\<not> float_overflows (2 * (real_of_int m / 2 ^ n))"
    by (rule not_float_overflows_below_two)
  ultimately show ?thesis
    using assms(1) by (simp add: solve_for_pi_cases)
qed

lemma solve_for_pi_zero: "solve_for_pi n 0 = Inl ZeroDivisionError"
  using not_float_overflows_small [of 0] by (simp add: solve_for_pi_cases)

lemma solve_for_pi_ZeroDivisionError_iff:
  "solve_for_pi n m = Inl ZeroDivisionError \<longleftrightarrow> m = 0"
  using not_float_overflows_small [of 0] by (auto simp add: solve_for_pi_cases)

lemma estimate_closed_form:
  "m \<noteq> 0 \<Longrightarrow> 1 / (2 * (real_of_int m / 2 ^ n)) = 2 ^ n / (2 * real_of_int m)"
  by (simp add: field_simps)

section \<open>The circuit of \<^verbatim>\<open>get_pi_estimate\<close>\<close>

lemma circ_measure_range_instrs:
  "circ_measure_range circ qs cs
     = circ\<lparr>instrs := instrs circ @ map (\<lambda>(q, b). GMeasure q b) (zip qs cs)\<rparr>"
proof -
  have "(\<lambda>c (q, b). append_gate c (GMeasure q b))
      = (\<lambda>c y. append_gate c ((\<lambda>(q, b). GMeasure q b) y))"
    by (simp add: fun_eq_iff)
  then show ?thesis
    unfolding circ_measure_range_def by (simp only: foldl_append_gate)
qed

lemma measure_same_range:
  "map (\<lambda>(q, b). GMeasure q b) (zip [0..<n] [0..<n]) = map (\<lambda>i. GMeasure i i) [0..<n]"
  by (simp add: zip_same_conv_map)

lemma get_pi_estimate_circuit_ok:
  assumes "n \<le> 1024"
  shows "get_pi_estimate_circuit n =
     Inr \<lparr>num_qubits = n + 1, num_clbits = n,
          instrs = (map GH [0..<n] @ [GX n]
                    @ concat (map (\<lambda>c. replicate (2 ^ c) (GCP 1 c n)) [0..<n]))
            @ [GBarrier]
            @ (map (\<lambda>q. GSwap q (n - 1 - q)) [0..<n div 2]
               @ concat (map (\<lambda>j. map (\<lambda>m. GCP (- pi / 2 ^ (j - m)) m j) [0..<j] @ [GH j])
                             [0..<n]))
            @ [GBarrier]
            @ map (\<lambda>i. GMeasure i i) [0..<n]\<rparr>"
  unfolding get_pi_estimate_circuit_def Let_def
  by (simp add: qft_dagger_instrs [OF assms] qpe_pre_instrs circ_barrier_def append_gate_def
        circ_measure_range_instrs measure_same_range QuantumCircuit_def ebind_def)

lemma get_pi_estimate_circuit_overflow:
  assumes "1024 < n"
  shows "get_pi_estimate_circuit n = Inl OverflowError"
  unfolding get_pi_estimate_circuit_def Let_def
  by (simp add: qft_dagger_overflow [OF assms] ebind_def)

lemma get_pi_estimate_circuit_Inr_iff:
  "(\<exists>circ. get_pi_estimate_circuit n = Inr circ) \<longleftrightarrow> n \<le> 1024"
proof (cases "n \<le> 1024")
  case True
  then show ?thesis by (simp add: get_pi_estimate_circuit_ok)
next
  case False
  then show ?thesis by (simp add: get_pi_estimate_circuit_overflow)
qed

lemma measurements_append: "measurements (xs @ ys) = measurements xs @ measurements ys"
  by (induction xs rule: measurements.induct) simp_all

lemma measurements_none:
  "(\<And>g. g \<in> set gs \<Longrightarrow> \<forall>q b. g \<noteq> GMeasure q b) \<Longrightarrow> measurements gs = []"
  by (induction gs rule: measurements.induct) auto

lemma measurements_measure: "measurements (map (\<lambda>i. GMeasure (f i) (g i)) xs) = map (\<lambda>i. (f i, g i)) xs"
  by (induction xs) simp_all

lemma get_pi_estimate_circuit_measurements:
  assumes "get_pi_estimate_circuit n = Inr circ"
  shows "measurements (instrs circ) = map (\<lambda>i. (i, i)) [0..<n]"
proof -
  from assms have "n \<le> 1024"
    using get_pi_estimate_circuit_Inr_iff [of n] by blast
  from get_pi_estimate_circuit_ok [OF this] assms
  have "instrs circ = (map GH [0..<n] @ [GX n]
                    @ concat (map (\<lambda>c. replicate (2 ^ c) (GCP 1 c n)) [0..<n]))
            @ [GBarrier]
            @ (map (\<lambda>q. GSwap q (n - 1 - q)) [0..<n div 2]
               @ concat (map (\<lambda>j. map (\<lambda>m. GCP (- pi / 2 ^ (j - m)) m j) [0..<j] @ [GH j])
                             [0..<n]))
            @ [GBarrier]
            @ map (\<lambda>i. GMeasure i i) [0..<n]"
    by auto
  moreover have "measurements (map GH [0..<n] @ [GX n]
                    @ concat (map (\<lambda>c. replicate (2 ^ c) (GCP 1 c n)) [0..<n])) = []"
    by (rule measurements_none) auto
  moreover have "measurements (map (\<lambda>q. GSwap q (n - 1 - q)) [0..<n div 2]
               @ concat (map (\<lambda>j. map (\<lambda>m. GCP (- pi / 2 ^ (j - m)) m j) [0..<j] @ [GH j])
                             [0..<n])) = []"
    by (rule measurements_none) auto
  ultimately show ?thesis
    by (simp only: measurements_append measurements_measure [of "\<lambda>i. i" "\<lambda>i. i"]
          measurements.simps append_Nil append_Nil2)
qed

text \<open>
  C9. The circuit that \<^verbatim>\<open>get_pi_estimate\<close> constructs for the qubit count \<open>n\<close> has
  \<open>n + 1\<close> qubits and \<open>n\<close> classical bits. Its measurements are those of qubit \<open>i\<close>
  into classical bit \<open>i\<close> for \<open>i = 0, ..., n - 1\<close>; the auxiliary qubit \<open>n\<close> is measured
  by none of its operations. (A circuit is constructed exactly for \<open>n \<le> 1024\<close>, see
  \<open>get_pi_estimate_circuit_Inr_iff\<close>.)
\<close>

theorem get_pi_estimate_circuit_registers:
  assumes "get_pi_estimate_circuit n = Inr circ"
  shows "num_qubits circ = n + 1 \<and> num_clbits circ = n
       \<and> measurements (instrs circ) = map (\<lambda>i. (i, i)) [0..<n]
       \<and> n \<notin> fst ` set (measurements (instrs circ))"
proof -
  from assms have "n \<le> 1024"
    using get_pi_estimate_circuit_Inr_iff [of n] by blast
  from get_pi_estimate_circuit_ok [OF this] assms
  have "num_qubits circ = n + 1" "num_clbits circ = n"
    by auto
  moreover have m: "measurements (instrs circ) = map (\<lambda>i. (i, i)) [0..<n]"
    using assms by (rule get_pi_estimate_circuit_measurements)
  moreover have "n \<notin> fst ` set (measurements (instrs circ))"
    unfolding m by auto
  ultimately show ?thesis by blast
qed

theorem get_pi_estimate_circuit_registers_witness:
  "\<exists>circ. get_pi_estimate_circuit 2 = Inr circ \<and> num_qubits circ = 3 \<and> num_clbits circ = 2
      \<and> measurements (instrs circ) = [(0, 0), (1, 1)]"
proof -
  obtain circ where c: "get_pi_estimate_circuit 2 = Inr circ"
    using get_pi_estimate_circuit_ok [of 2] by simp
  from get_pi_estimate_circuit_registers [OF c] c show ?thesis
    by (simp add: numeral_2_eq_2)
qed

section \<open>\<^verbatim>\<open>run_job\<close> and \<^verbatim>\<open>get_pi_estimate\<close>\<close>

lemma get_pi_estimate_after_run:
  assumes "get_pi_estimate_circuit n = Inr circ"
    and "run_job sdk circ (simulator sdk) 10000 0 = Inr cnts"
  shows "get_pi_estimate sdk n = ebind (most_frequent cnts) (solve_for_pi n)"
  using assms by (simp add: get_pi_estimate_def ebind_def)

lemma get_pi_estimate_run_raises:
  assumes "get_pi_estimate_circuit n = Inr circ"
    and "run_job sdk circ (simulator sdk) 10000 0 = Inl e"
  shows "get_pi_estimate sdk n = Inl e"
  using assms by (simp add: get_pi_estimate_def ebind_def)

lemma run_job_Inl_iff:
  "run_job sdk circ backend shots lvl = Inl e \<longleftrightarrow> sdk_raises sdk circ backend shots lvl e"
  unfolding run_job_def sdk_raises_def ebind_def
  by (auto split: sum.splits)

lemma stub_counts:
  "run_job (stub_sdk (Inr ()) (Inr cnts)) circ (simulator (stub_sdk (Inr ()) (Inr cnts))) shots lvl
     = Inr cnts"
  by (simp add: run_job_def stub_sdk_def ebind_def)

lemma get_pi_estimate_empty_counts:
  assumes "get_pi_estimate_circuit n = Inr circ"
    and "run_job sdk circ (simulator sdk) 10000 0 = Inr []"
  shows "get_pi_estimate sdk n = Inl ValueError"
  by (simp add: get_pi_estimate_after_run [OF assms] most_frequent_def keys_def
        py_max_empty ebind_def)

text \<open>
  C1. Let the circuit for \<open>n\<close> qubits be built and run, and let \<open>m\<close> be the integer of
  the most frequent bit-string of the counts, with \<open>0 < m < 2 ^ n\<close>. Then
  \<^verbatim>\<open>get_pi_estimate\<close> returns \<open>1 / (2 * (m / 2 ^ n))\<close>, computed as \<open>theta = m / 2 ^ n\<close>
  followed by \<open>1 / (2 * theta)\<close>; this number is \<open>2 ^ n / (2 * m)\<close>.
\<close>

theorem get_pi_estimate_formula:
  assumes "get_pi_estimate_circuit n = Inr circ"
    and "run_job sdk circ (simulator sdk) 10000 0 = Inr cnts"
    and "most_frequent cnts = Inr m"
    and "0 < m" and "m < 2 ^ n"
  shows "get_pi_estimate sdk n = Inr (1 / (2 * (real_of_int m / 2 ^ n)))
       \<and> 1 / (2 * (real_of_int m / 2 ^ n)) = 2 ^ n / (2 * real_of_int m)"
proof
  have "get_pi_estimate sdk n = solve_for_pi n m"
    using assms(3) by (simp add: get_pi_estimate_after_run [OF assms(1,2)] ebind_def)
  also have "\<dots> = Inr (1 / (2 * (real_of_int m / 2 ^ n)))"
    using assms(4,5) by (rule solve_for_pi_in_range)
  finally show "get_pi_estimate sdk n = Inr (1 / (2 * (real_of_int m / 2 ^ n)))" .
  from assms(4) show "1 / (2 * (real_of_int m / 2 ^ n)) = 2 ^ n / (2 * real_of_int m)"
    by (intro estimate_closed_form) simp
qed

theorem get_pi_estimate_formula_witness:
  "get_pi_estimate (stub_sdk (Inr ()) (Inr [(''01'', 7000), (''10'', 3000)])) 2 = Inr 2"
proof -
  obtain circ where c: "get_pi_estimate_circuit 2 = Inr circ"
    using get_pi_estimate_circuit_ok [of 2] by simp
  have m: "most_frequent [(''01'', 7000), (''10'', 3000)] = Inr 1"
    by (simp add: most_frequent_def py_max_def keys_def counts_get_def ebind_def
          py_int_base2_def is_bitstring_def is_bit_def bin_value_def)
  show ?thesis
    using get_pi_estimate_formula [OF c stub_counts m] by simp
qed

text \<open>
  The integer that \<open>bin_value\<close> computes is the value of the word in base 2, the first
  character being the most significant digit.
\<close>

lemma foldl_base2:
  "foldl (\<lambda>acc c. 2 * acc + (if c = CHR ''1'' then 1 else 0)) a s
     = a * 2 ^ length s
       + (\<Sum>i<length s. if s ! i = CHR ''1'' then 2 ^ (length s - 1 - i) else 0 :: int)"
proof (induction s rule: rev_induct)
  case Nil
  show ?case by simp
next
  case (snoc c s)
  have "(\<Sum>i<length s. if (s @ [c]) ! i = CHR ''1'' then 2 ^ (length (s @ [c]) - 1 - i) else 0 :: int)
      = (\<Sum>i<length s. 2 * (if s ! i = CHR ''1'' then 2 ^ (length s - 1 - i) else 0))"
  proof (rule sum.cong)
    fix i assume "i \<in> {..<length s}"
    then have i: "i < length s" by simp
    then have "length s - i = Suc (length s - 1 - i)" by simp
    with i show "(if (s @ [c]) ! i = CHR ''1'' then 2 ^ (length (s @ [c]) - 1 - i) else 0 :: int)
        = 2 * (if s ! i = CHR ''1'' then 2 ^ (length s - 1 - i) else 0)"
      by (simp add: nth_append)
  qed simp
  then have "(\<Sum>i<length (s @ [c]). if (s @ [c]) ! i = CHR ''1'' then 2 ^ (length (s @ [c]) - 1 - i) else 0 :: int)
      = 2 * (\<Sum>i<length s. if s ! i = CHR ''1'' then 2 ^ (length s - 1 - i) else 0)
        + (if c = CHR ''1'' then 1 else 0)"
    by (simp add: sum_distrib_left)
  with snoc show ?case
    by (simp add: algebra_simps)
qed

text \<open>
  C3, as the claim states it, for every non-empty counts mapping. It fails for one qubit
  and the counts \<^verbatim>\<open>{'0': 7720, '1': 2280}\<close>: the most frequent bit-string is \<^verbatim>\<open>0\<close>,
  \<open>theta\<close> is zero, and the call raises \<^verbatim>\<open>ZeroDivisionError\<close> where the claim has it
  produce an estimate.
\<close>

theorem get_pi_estimate_zero_counts_raise:
  "get_pi_estimate (stub_sdk (Inr ()) (Inr [(''0'', 7720), (''1'', 2280)])) 1
     = Inl ZeroDivisionError"
proof -
  obtain circ where c: "get_pi_estimate_circuit 1 = Inr circ"
    using get_pi_estimate_circuit_ok [of 1] by simp
  have "\<not> float_overflows 0"
    by (rule not_float_overflows_below_two) simp
  then have "ebind (most_frequent [(''0'', 7720), (''1'', 2280)]) (solve_for_pi 1)
      = Inl ZeroDivisionError"
    by (simp add: most_frequent_def py_max_def keys_def
          counts_get_def py_int_base2_def is_bitstring_def is_bit_def bin_value_def
          solve_for_pi_def py_truediv_def py_fdiv_def ebind_def)
  then show ?thesis
    by (simp only: get_pi_estimate_after_run [OF c stub_counts])
qed

text \<open>
  C3, amended. Let the run return a non-empty counts mapping whose keys are bit-strings
  of length \<open>n\<close>, as the backend returns them for the \<open>n\<close> classical bits. Then
  \<^verbatim>\<open>get_pi_estimate\<close> selects a key \<open>k\<close> whose count \<open>c\<close> is the greatest of the mapping,
  reads it as the integer \<open>m\<close> in base 2 (the sum of \<open>2 ^ (n - 1 - i)\<close> over the positions
  \<open>i\<close> that hold a \<^verbatim>\<open>1\<close>), divides by \<open>2 ^ n\<close> to obtain \<open>theta\<close>, and, when \<open>m\<close> is not
  zero, returns \<open>1 / (2 * theta)\<close> as the estimate; when \<open>m\<close> is zero it raises
  \<^verbatim>\<open>ZeroDivisionError\<close> and produces no estimate.
\<close>

theorem get_pi_estimate_pipeline:
  assumes "get_pi_estimate_circuit n = Inr circ"
    and "run_job sdk circ (simulator sdk) 10000 0 = Inr cnts"
    and "cnts \<noteq> []"
    and "distinct (map fst cnts)"
    and "\<forall>k \<in> set (map fst cnts). k \<noteq> [] \<and> set k \<subseteq> {CHR ''0'', CHR ''1''} \<and> length k = n"
  shows "\<exists>k c. (k, c) \<in> set cnts \<and> (\<forall>(k', c') \<in> set cnts. c' \<le> c)
          \<and> (let m = (\<Sum>i<n. if k ! i = CHR ''1'' then 2 ^ (n - 1 - i) else 0) :: int;
                 theta = real_of_int m / 2 ^ n
             in if m = 0 then get_pi_estimate sdk n = Inl ZeroDivisionError
                else get_pi_estimate sdk n = Inr (1 / (2 * theta)))"
proof -
  have "keys cnts \<noteq> []"
    using assms(3) by (simp add: keys_def)
  from py_max_nonempty [OF this, of "counts_get cnts"]
  obtain k where sel: "py_max (counts_get cnts) (keys cnts) = Inr k"
    and kin: "k \<in> set (keys cnts)"
    and kmax: "\<forall>y \<in> set (keys cnts). counts_get cnts y \<le> counts_get cnts k"
    by blast
  from kin obtain c where kc: "(k, c) \<in> set cnts"
    by (auto simp add: keys_def)
  have get: "counts_get cnts k' = Some c'" if "(k', c') \<in> set cnts" for k' c'
    using that assms(4) by (simp add: counts_get_def)
  have cmax: "\<forall>(k', c') \<in> set cnts. c' \<le> c"
  proof (clarify)
    fix k' c' assume in_cnts: "(k', c') \<in> set cnts"
    then have "k' \<in> set (keys cnts)"
      by (force simp add: keys_def)
    with kmax have "counts_get cnts k' \<le> counts_get cnts k" by blast
    then show "c' \<le> c"
      by (simp add: get [OF in_cnts] get [OF kc])
  qed
  from kin assms(5) have kb: "k \<noteq> []" "set k \<subseteq> {CHR ''0'', CHR ''1''}" "length k = n"
    by (auto simp add: keys_def)
  then have bits: "is_bitstring k"
    by (auto simp add: is_bitstring_def is_bit_def list_all_iff)
  define m :: int where "m = (\<Sum>i<n. if k ! i = CHR ''1'' then 2 ^ (n - 1 - i) else 0)"
  have "bin_value k
      = (\<Sum>i<length k. if k ! i = CHR ''1'' then 2 ^ (length k - 1 - i) else 0)"
    by (simp add: bin_value_def foldl_base2)
  then have bv: "bin_value k = m"
    by (simp only: kb(3) m_def)
  have mf: "most_frequent cnts = Inr m"
    by (simp add: most_frequent_def sel py_int_base2_def bits bv ebind_def)
  have est: "get_pi_estimate sdk n = solve_for_pi n m"
    by (simp add: get_pi_estimate_def assms(1,2) mf ebind_def)
  from bin_value_bounds [of k] have "0 \<le> m" "m < 2 ^ n"
    by (simp_all add: bv kb(3))
  then have "0 \<le> real_of_int m" "real_of_int m < 2 ^ n"
    by (simp, metis of_int_less_iff of_int_numeral of_int_power)
  then have small: "\<bar>real_of_int m / 2 ^ n\<bar> < 1"
    by simp
  then have no1: "\<not> float_overflows (real_of_int m / 2 ^ n)"
    by (rule not_float_overflows_small)
  from small have "\<bar>2 * (real_of_int m / 2 ^ n)\<bar> < 2"
    unfolding abs_mult by linarith
  then have no2: "\<not> float_overflows (2 * (real_of_int m / 2 ^ n))"
    by (rule not_float_overflows_below_two)
  have "solve_for_pi n m =
      (if m = 0 then Inl ZeroDivisionError else Inr (1 / (2 * (real_of_int m / 2 ^ n))))"
    using no1 no2 by (simp add: solve_for_pi_def py_truediv_def py_fdiv_def ebind_def)
  with est have "if m = 0 then get_pi_estimate sdk n = Inl ZeroDivisionError
      else get_pi_estimate sdk n = Inr (1 / (2 * (real_of_int m / 2 ^ n)))"
    by simp
  then have "let m = (\<Sum>i<n. if k ! i = CHR ''1'' then 2 ^ (n - 1 - i) else 0) :: int;
                 theta = real_of_int m / 2 ^ n
             in if m = 0 then get_pi_estimate sdk n = Inl ZeroDivisionError
                else get_pi_estimate sdk n = Inr (1 / (2 * theta))"
    unfolding m_def Let_def .
  with kc cmax show ?thesis by blast
qed

theorem get_pi_estimate_pipeline_witness:
  "most_frequent [(''100'', 3000), (''011'', 7000)] = Inr 3
   \<and> get_pi_estimate (stub_sdk (Inr ()) (Inr [(''100'', 3000), (''011'', 7000)])) 3 = Inr (4 / 3)"
proof
  show "most_frequent [(''100'', 3000), (''011'', 7000)] = Inr 3"
    by (simp add: most_frequent_def py_max_def keys_def counts_get_def py_int_base2_def
          is_bitstring_def is_bit_def bin_value_def ebind_def)
  obtain circ where c: "get_pi_estimate_circuit 3 = Inr circ"
    using get_pi_estimate_circuit_ok [of 3] by simp
  let ?cnts = "[(''100'', 3000), (''011'', 7000)] :: counts"
  let ?sdk = "stub_sdk (Inr ()) (Inr ?cnts)"
  have "\<exists>k c. (k, c) \<in> set ?cnts \<and> (\<forall>(k', c') \<in> set ?cnts. c' \<le> c)
          \<and> (let m = (\<Sum>i<3. if k ! i = CHR ''1'' then 2 ^ (3 - 1 - i) else 0) :: int;
                 theta = real_of_int m / 2 ^ 3
             in if m = 0 then get_pi_estimate ?sdk 3 = Inl ZeroDivisionError
                else get_pi_estimate ?sdk 3 = Inr (1 / (2 * theta)))"
    by (rule get_pi_estimate_pipeline [OF c stub_counts]) simp_all
  then show "get_pi_estimate ?sdk 3 = Inr (4 / 3)"
    by (auto simp add: Let_def numeral_3_eq_3)
qed

text \<open>
  C8. Let the most frequent bit-string of the counts be \<open>key\<close>. If \<open>key\<close> consists of
  zeros only, the last expression \<open>1 / (2 * theta)\<close> divides by zero and
  \<^verbatim>\<open>get_pi_estimate\<close> raises \<^verbatim>\<open>ZeroDivisionError\<close>; it raises this exception for a
  measured integer of zero only; and whenever it returns an estimate, the measured
  integer is not zero.
\<close>

theorem get_pi_estimate_zero_measurement:
  assumes "get_pi_estimate_circuit n = Inr circ"
    and "run_job sdk circ (simulator sdk) 10000 0 = Inr cnts"
    and "py_max (counts_get cnts) (keys cnts) = Inr key"
    and "is_bitstring key"
  shows "(CHR ''1'' \<notin> set key \<longrightarrow> get_pi_estimate sdk n = Inl ZeroDivisionError)
       \<and> (get_pi_estimate sdk n = Inl ZeroDivisionError \<longrightarrow> bin_value key = 0)
       \<and> ((\<exists>est. get_pi_estimate sdk n = Inr est) \<longrightarrow> bin_value key \<noteq> 0)"
proof -
  from assms(3,4) have "most_frequent cnts = Inr (bin_value key)"
    by (simp add: most_frequent_def py_int_base2_def ebind_def)
  then have est: "get_pi_estimate sdk n = solve_for_pi n (bin_value key)"
    by (simp add: get_pi_estimate_after_run [OF assms(1,2)] ebind_def)
  have "CHR ''1'' \<notin> set key \<Longrightarrow> get_pi_estimate sdk n = Inl ZeroDivisionError"
    by (simp add: est bin_value_zero_iff [symmetric] solve_for_pi_zero)
  moreover have "get_pi_estimate sdk n = Inl ZeroDivisionError \<Longrightarrow> bin_value key = 0"
    by (simp add: est solve_for_pi_ZeroDivisionError_iff)
  moreover have "\<exists>est. get_pi_estimate sdk n = Inr est \<Longrightarrow> bin_value key \<noteq> 0"
    using solve_for_pi_zero [of n] by (auto simp add: est)
  ultimately show ?thesis by blast
qed

theorem get_pi_estimate_zero_measurement_witness:
  "get_pi_estimate (stub_sdk (Inr ()) (Inr [(''0'', 9000), (''1'', 1000)])) 1
     = Inl ZeroDivisionError"
proof -
  obtain circ where c: "get_pi_estimate_circuit 1 = Inr circ"
    using get_pi_estimate_circuit_ok [of 1] by simp
  have k: "py_max (counts_get [(''0'', 9000), (''1'', 1000)]) (keys [(''0'', 9000), (''1'', 1000)])
      = Inr ''0''"
    by (simp add: py_max_def keys_def counts_get_def)
  have b: "is_bitstring ''0''"
    by (simp add: is_bitstring_def is_bit_def)
  from get_pi_estimate_zero_measurement [OF c stub_counts k b]
  show ?thesis by simp
qed

text \<open>
  C10. Two runs for the same qubit count whose counts mappings have the same bit-string
  as the one key with a count above all others give the same outcome of
  \<^verbatim>\<open>get_pi_estimate\<close>, whatever the counts, the other keys and the number of shots are.
\<close>

theorem get_pi_estimate_same_max:
  assumes "get_pi_estimate_circuit n = Inr circ"
    and "run_job sdk1 circ (simulator sdk1) 10000 0 = Inr cnts1"
    and "run_job sdk2 circ (simulator sdk2) 10000 0 = Inr cnts2"
    and "is_unique_max_key cnts1 k"
    and "is_unique_max_key cnts2 k"
  shows "get_pi_estimate sdk1 n = get_pi_estimate sdk2 n"
proof -
  have "most_frequent cnts1 = py_int_base2 k" "most_frequent cnts2 = py_int_base2 k"
    using assms(4,5) by (simp_all add: most_frequent_def py_max_keys_unique ebind_def)
  then show ?thesis
    by (simp add: get_pi_estimate_after_run [OF assms(1,2)]
          get_pi_estimate_after_run [OF assms(1,3)])
qed

theorem get_pi_estimate_same_max_witness:
  "get_pi_estimate (stub_sdk (Inr ()) (Inr [(''01'', 7000), (''10'', 3000)])) 2
     = get_pi_estimate (stub_sdk (Inr ()) (Inr [(''11'', 1), (''00'', 2), (''01'', 5)])) 2"
proof -
  obtain circ where c: "get_pi_estimate_circuit 2 = Inr circ"
    using get_pi_estimate_circuit_ok [of 2] by simp
  have u1: "is_unique_max_key [(''01'', 7000), (''10'', 3000)] ''01''"
    by (simp add: is_unique_max_key_def keys_def counts_get_def)
  have u2: "is_unique_max_key [(''11'', 1), (''00'', 2), (''01'', 5)] ''01''"
    by (simp add: is_unique_max_key_def keys_def counts_get_def)
  show ?thesis
    by (rule get_pi_estimate_same_max [OF c stub_counts stub_counts u1 u2])
qed

text \<open>
  C7. Neither \<^verbatim>\<open>run_job\<close> nor \<^verbatim>\<open>get_pi_estimate\<close> catches or translates an
  exception of the SDK: when the SDK raises \<open>e\<close> in the transpilation, the assembly, the
  submission, the monitoring or the retrieval of the result, \<^verbatim>\<open>run_job\<close> raises \<open>e\<close>,
  and \<^verbatim>\<open>get_pi_estimate\<close> raises \<open>e\<close> and returns no estimate.
\<close>

theorem sdk_failure_propagates:
  assumes "get_pi_estimate_circuit n = Inr circ"
    and "sdk_raises sdk circ (simulator sdk) 10000 0 e"
  shows "run_job sdk circ (simulator sdk) 10000 0 = Inl e \<and> get_pi_estimate sdk n = Inl e"
proof -
  from assms(2) have "run_job sdk circ (simulator sdk) 10000 0 = Inl e"
    by (simp only: run_job_Inl_iff)
  with assms(1) show ?thesis
    by (simp add: get_pi_estimate_run_raises)
qed

theorem sdk_failure_propagates_witness:
  "get_pi_estimate (stub_sdk (Inl (SdkError ''JobError'')) (Inr [(''01'', 7000)])) 2
     = Inl (SdkError ''JobError'')"
proof -
  obtain circ where c: "get_pi_estimate_circuit 2 = Inr circ"
    using get_pi_estimate_circuit_ok [of 2] by simp
  let ?sdk = "stub_sdk (Inl (SdkError ''JobError'')) (Inr [(''01'', 7000)])"
  have "sdk_raises ?sdk circ (simulator ?sdk) 10000 0 (SdkError ''JobError'')"
    by (simp add: sdk_raises_def stub_sdk_def)
  from sdk_failure_propagates [OF c this] show ?thesis by simp
qed

section \<open>The estimates for the expected measurements\<close>

subsection \<open>Bounds of pi\<close>

text \<open>
  Polynomial bounds of the arc tangent on the non-negative reals, each from the sign of
  the derivative of the difference, and with them bounds of pi from Machin's formula.
\<close>

lemma one_plus_square_pos: "0 < 1 + (t::real)\<^sup>2"
  using zero_le_power2 [of t] by linarith

lemma arctan_ge_poly7:
  assumes "0 \<le> x"
  shows "x - x ^ 3 / 3 + x ^ 5 / 5 - x ^ 7 / 7 \<le> arctan x"
proof -
  let ?f = "\<lambda>t::real. arctan t - (t - t ^ 3 / 3 + t ^ 5 / 5 - t ^ 7 / 7)"
  have "?f 0 \<le> ?f x"
  proof (rule DERIV_nonneg_imp_nondecreasing [OF assms])
    fix t :: real
    have pos: "0 < 1 + t\<^sup>2" by (rule one_plus_square_pos)
    have "(?f has_real_derivative (inverse (1 + t\<^sup>2) - (1 - t ^ 2 + t ^ 4 - t ^ 6))) (at t)"
      by (auto intro!: derivative_eq_intros)
    moreover have "inverse (1 + t\<^sup>2) - (1 - t ^ 2 + t ^ 4 - t ^ 6) = t ^ 8 / (1 + t\<^sup>2)"
      using pos by (simp add: field_simps)
    ultimately have "(?f has_real_derivative (t ^ 8 / (1 + t\<^sup>2))) (at t)"
      by simp
    moreover have "0 \<le> t ^ 8 / (1 + t\<^sup>2)"
      using pos by (intro divide_nonneg_nonneg) simp_all
    ultimately show "\<exists>y. (?f has_real_derivative y) (at t) \<and> 0 \<le> y"
      by blast
  qed
  then show ?thesis by simp
qed

lemma arctan_le_poly5:
  assumes "0 \<le> x"
  shows "arctan x \<le> x - x ^ 3 / 3 + x ^ 5 / 5"
proof -
  let ?f = "\<lambda>t::real. (t - t ^ 3 / 3 + t ^ 5 / 5) - arctan t"
  have "?f 0 \<le> ?f x"
  proof (rule DERIV_nonneg_imp_nondecreasing [OF assms])
    fix t :: real
    have pos: "0 < 1 + t\<^sup>2" by (rule one_plus_square_pos)
    have "(?f has_real_derivative ((1 - t ^ 2 + t ^ 4) - inverse (1 + t\<^sup>2))) (at t)"
      by (auto intro!: derivative_eq_intros)
    moreover have "(1 - t ^ 2 + t ^ 4) - inverse (1 + t\<^sup>2) = t ^ 6 / (1 + t\<^sup>2)"
      using pos by (simp add: field_simps)
    ultimately have "(?f has_real_derivative (t ^ 6 / (1 + t\<^sup>2))) (at t)"
      by simp
    moreover have "0 \<le> t ^ 6 / (1 + t\<^sup>2)"
      using pos by (intro divide_nonneg_nonneg) simp_all
    ultimately show "\<exists>y. (?f has_real_derivative y) (at t) \<and> 0 \<le> y"
      by blast
  qed
  then show ?thesis by simp
qed

lemma arctan_ge_poly3:
  assumes "0 \<le> x"
  shows "x - x ^ 3 / 3 \<le> arctan x"
proof -
  let ?f = "\<lambda>t::real. arctan t - (t - t ^ 3 / 3)"
  have "?f 0 \<le> ?f x"
  proof (rule DERIV_nonneg_imp_nondecreasing [OF assms])
    fix t :: real
    have pos: "0 < 1 + t\<^sup>2" by (rule one_plus_square_pos)
    have "(?f has_real_derivative (inverse (1 + t\<^sup>2) - (1 - t ^ 2))) (at t)"
      by (auto intro!: derivative_eq_intros)
    moreover have "inverse (1 + t\<^sup>2) - (1 - t ^ 2) = t ^ 4 / (1 + t\<^sup>2)"
      using pos by (simp add: field_simps)
    ultimately have "(?f has_real_derivative (t ^ 4 / (1 + t\<^sup>2))) (at t)"
      by simp
    moreover have "0 \<le> t ^ 4 / (1 + t\<^sup>2)"
      using pos by (intro divide_nonneg_nonneg) simp_all
    ultimately show "\<exists>y. (?f has_real_derivative y) (at t) \<and> 0 \<le> y"
      by blast
  qed
  then show ?thesis by simp
qed

lemma arctan_le_arg:
  assumes "0 \<le> x"
  shows "arctan x \<le> x"
proof -
  let ?f = "\<lambda>t::real. t - arctan t"
  have "?f 0 \<le> ?f x"
  proof (rule DERIV_nonneg_imp_nondecreasing [OF assms])
    fix t :: real
    have pos: "0 < 1 + t\<^sup>2" by (rule one_plus_square_pos)
    have "(?f has_real_derivative (1 - inverse (1 + t\<^sup>2))) (at t)"
      by (auto intro!: derivative_eq_intros)
    moreover have "1 - inverse (1 + t\<^sup>2) = t ^ 2 / (1 + t\<^sup>2)"
      using pos by (simp add: field_simps)
    ultimately have "(?f has_real_derivative (t ^ 2 / (1 + t\<^sup>2))) (at t)"
      by simp
    moreover have "0 \<le> t ^ 2 / (1 + t\<^sup>2)"
      using pos by (intro divide_nonneg_nonneg) simp_all
    ultimately show "\<exists>y. (?f has_real_derivative y) (at t) \<and> 0 \<le> y"
      by blast
  qed
  then show ?thesis by simp
qed

lemma pi_lower: "3.1415 < pi"
proof -
  have "(1/5) - (1/5) ^ 3 / 3 + (1/5) ^ 5 / 5 - (1/5) ^ 7 / 7 \<le> arctan (1/5 :: real)"
    by (rule arctan_ge_poly7) simp
  moreover have "arctan (1/239 :: real) \<le> 1/239"
    by (rule arctan_le_arg) simp
  moreover have "pi = 16 * arctan (1/5) - 4 * arctan (1/239)"
    using machin by simp
  ultimately show ?thesis
    by (simp add: power_divide)
qed

lemma pi_upper: "pi < 3.1417"
proof -
  have "arctan (1/5 :: real) \<le> (1/5) - (1/5) ^ 3 / 3 + (1/5) ^ 5 / 5"
    by (rule arctan_le_poly5) simp
  moreover have "(1/239) - (1/239) ^ 3 / 3 \<le> arctan (1/239 :: real)"
    by (rule arctan_ge_poly3) simp
  moreover have "pi = 16 * arctan (1/5) - 4 * arctan (1/239)"
    using machin by simp
  ultimately show ?thesis
    by (simp add: power_divide)
qed

subsection \<open>Expected measurements\<close>

lemma round_over_two_pi:
  assumes "(2 * real_of_int k - 1) * pi < N" and "N < (2 * real_of_int k + 1) * pi"
  shows "round (N / (2 * pi)) = k"
proof (rule round_unique')
  have "N / (2 * pi) - real_of_int k = (N - 2 * real_of_int k * pi) / (2 * pi)"
    by (simp add: field_simps)
  moreover have "\<bar>N - 2 * real_of_int k * pi\<bar> < pi"
    using assms by (simp add: abs_less_iff algebra_simps)
  ultimately show "\<bar>N / (2 * pi) - real_of_int k\<bar> < 1 / 2"
    by (simp add: abs_divide field_simps)
qed

lemma expected_measurement_values:
  "expected_measurement 2 = 1"
  "expected_measurement 3 = 1"
  "expected_measurement 4 = 3"
  "expected_measurement 5 = 5"
  "expected_measurement 6 = 10"
  "expected_measurement 7 = 20"
  "expected_measurement 8 = 41"
  "expected_measurement 9 = 81"
  "expected_measurement 10 = 163"
  "expected_measurement 11 = 326"
  "expected_measurement 12 = 652"
  unfolding expected_measurement_def
  using pi_lower pi_upper
  by (intro round_over_two_pi; simp)+

text \<open>
  The estimates for the expected measurements of 2 to 12 qubits. They are the numbers
  that the notebook's recorded run printed: \<^verbatim>\<open>2.0\<close>, \<^verbatim>\<open>4.0\<close>, \<^verbatim>\<open>2.6666666666666665\<close>,
  three times \<^verbatim>\<open>3.2\<close>, \<^verbatim>\<open>3.1219512195121952\<close>, \<^verbatim>\<open>3.1604938271604937\<close> and three
  times \<^verbatim>\<open>3.1411042944785277\<close>.
\<close>

lemma expected_estimates:
  "solve_for_pi 2 (expected_measurement 2) = Inr (2 / 1)"
  "solve_for_pi 3 (expected_measurement 3) = Inr (4 / 1)"
  "solve_for_pi 4 (expected_measurement 4) = Inr (8 / 3)"
  "solve_for_pi 5 (expected_measurement 5) = Inr (16 / 5)"
  "solve_for_pi 6 (expected_measurement 6) = Inr (16 / 5)"
  "solve_for_pi 7 (expected_measurement 7) = Inr (16 / 5)"
  "solve_for_pi 8 (expected_measurement 8) = Inr (128 / 41)"
  "solve_for_pi 9 (expected_measurement 9) = Inr (256 / 81)"
  "solve_for_pi 10 (expected_measurement 10) = Inr (512 / 163)"
  "solve_for_pi 11 (expected_measurement 11) = Inr (512 / 163)"
  "solve_for_pi 12 (expected_measurement 12) = Inr (512 / 163)"
  by (simp_all add: expected_measurement_values solve_for_pi_in_range)

lemma expected_measurement_range:
  assumes "2 \<le> n" and "n \<le> 12"
  shows "0 < expected_measurement n \<and> expected_measurement n < 2 ^ n"
proof -
  from assms consider "n = 2" | "n = 3" | "n = 4" | "n = 5" | "n = 6" | "n = 7" | "n = 8" | "n = 9" | "n = 10" | "n = 11" | "n = 12"
    by atomize_elim arith
  then show ?thesis
    by cases (simp_all add: expected_measurement_values)
qed

lemma expected_estimates_closer:
  assumes "2 \<le> n" and "n < 12"
  shows "\<bar>1 / (2 * (real_of_int (expected_measurement (n + 1)) / 2 ^ (n + 1))) - pi\<bar>
       \<le> \<bar>1 / (2 * (real_of_int (expected_measurement n) / 2 ^ n)) - pi\<bar>"
proof -
  from assms consider "n = 2" | "n = 3" | "n = 4" | "n = 5" | "n = 6" | "n = 7" | "n = 8" | "n = 9" | "n = 10" | "n = 11"
    by atomize_elim arith
  then show ?thesis
  proof cases
    case 1
    then have "expected_measurement n = 1" and "expected_measurement (n + 1) = 1"
      by (simp_all add: expected_measurement_values)
    with \<open>n = 2\<close> show ?thesis
      using pi_lower pi_upper by simp
  next
    case 2
    then have "expected_measurement n = 1" and "expected_measurement (n + 1) = 3"
      by (simp_all add: expected_measurement_values)
    with \<open>n = 3\<close> show ?thesis
      using pi_lower pi_upper by simp
  next
    case 3
    then have "expected_measurement n = 3" and "expected_measurement (n + 1) = 5"
      by (simp_all add: expected_measurement_values)
    with \<open>n = 4\<close> show ?thesis
      using pi_lower pi_upper by simp
  next
    case 4
    then have "expected_measurement n = 5" and "expected_measurement (n + 1) = 10"
      by (simp_all add: expected_measurement_values)
    with \<open>n = 5\<close> show ?thesis
      using pi_lower pi_upper by simp
  next
    case 5
    then have "expected_measurement n = 10" and "expected_measurement (n + 1) = 20"
      by (simp_all add: expected_measurement_values)
    with \<open>n = 6\<close> show ?thesis
      using pi_lower pi_upper by simp
  next
    case 6
    then have "expected_measurement n = 20" and "expected_measurement (n + 1) = 41"
      by (simp_all add: expected_measurement_values)
    with \<open>n = 7\<close> show ?thesis
      using pi_lower pi_upper by simp
  next
    case 7
    then have "expected_measurement n = 41" and "expected_measurement (n + 1) = 81"
      by (simp_all add: expected_measurement_values)
    with \<open>n = 8\<close> show ?thesis
      using pi_lower pi_upper by simp
  next
    case 8
    then have "expected_measurement n = 81" and "expected_measurement (n + 1) = 163"
      by (simp_all add: expected_measurement_values)
    with \<open>n = 9\<close> show ?thesis
      using pi_lower pi_upper by simp
  next
    case 9
    then have "expected_measurement n = 163" and "expected_measurement (n + 1) = 326"
      by (simp_all add: expected_measurement_values)
    with \<open>n = 10\<close> show ?thesis
      using pi_lower pi_upper by simp
  next
    case 10
    then have "expected_measurement n = 326" and "expected_measurement (n + 1) = 652"
      by (simp_all add: expected_measurement_values)
    with \<open>n = 11\<close> show ?thesis
      using pi_lower pi_upper by simp
  qed
qed

text \<open>
  C2. The notebook runs \<^verbatim>\<open>get_pi_estimate\<close> for the qubit counts 2 to 12. Let \<open>n\<close> and
  \<open>n + 1\<close> be in this range, and let the runs for \<open>n\<close> and for \<open>n + 1\<close> qubits have the
  expected measurements \<open>m\<close> and \<open>m'\<close> of a noiseless run as their most frequent ones.
  Then \<^verbatim>\<open>get_pi_estimate\<close> returns \<open>1 / (2 * (m / 2 ^ n))\<close> for \<open>n\<close> qubits and
  \<open>1 / (2 * (m' / 2 ^ (n + 1)))\<close> for \<open>n + 1\<close> qubits, and the second estimate is at least
  as close to pi as the first: over this range the estimates approach pi monotonically.
\<close>

theorem estimates_approach_pi:
  assumes "2 \<le> n" and "n < 12"
    and "get_pi_estimate_circuit n = Inr circ"
    and "run_job sdk circ (simulator sdk) 10000 0 = Inr cnts"
    and "most_frequent cnts = Inr (expected_measurement n)"
    and "get_pi_estimate_circuit (n + 1) = Inr circ'"
    and "run_job sdk' circ' (simulator sdk') 10000 0 = Inr cnts'"
    and "most_frequent cnts' = Inr (expected_measurement (n + 1))"
  shows "get_pi_estimate sdk n
           = Inr (1 / (2 * (real_of_int (expected_measurement n) / 2 ^ n)))
       \<and> get_pi_estimate sdk' (n + 1)
           = Inr (1 / (2 * (real_of_int (expected_measurement (n + 1)) / 2 ^ (n + 1))))
       \<and> \<bar>1 / (2 * (real_of_int (expected_measurement (n + 1)) / 2 ^ (n + 1))) - pi\<bar>
           \<le> \<bar>1 / (2 * (real_of_int (expected_measurement n) / 2 ^ n)) - pi\<bar>"
proof -
  have est_value: "solve_for_pi k m = Inr (1 / (2 * (real_of_int m / 2 ^ k)))"
    if "0 < m \<and> m < 2 ^ k" for k m
  proof -
    from that have "0 < real_of_int m" "real_of_int m < 2 ^ k"
      by (simp, metis of_int_less_iff of_int_numeral of_int_power)
    then have small: "\<bar>real_of_int m / 2 ^ k\<bar> < 1"
      by simp
    then have no1: "\<not> float_overflows (real_of_int m / 2 ^ k)"
      by (rule not_float_overflows_small)
    from small have "\<bar>2 * (real_of_int m / 2 ^ k)\<bar> < 2"
      unfolding abs_mult by linarith
    then have no2: "\<not> float_overflows (2 * (real_of_int m / 2 ^ k))"
      by (rule not_float_overflows_below_two)
    from that no1 no2 show ?thesis
      by (simp add: solve_for_pi_def py_truediv_def py_fdiv_def ebind_def)
  qed
  have "get_pi_estimate sdk n = solve_for_pi n (expected_measurement n)"
    by (simp add: get_pi_estimate_def assms(3,4,5) ebind_def)
  moreover have "get_pi_estimate sdk' (n + 1) = solve_for_pi (n + 1) (expected_measurement (n + 1))"
    by (simp only: get_pi_estimate_def assms(6,7,8) ebind_def sum.case)
  moreover have "0 < expected_measurement n \<and> expected_measurement n < 2 ^ n"
    using assms(1,2) by (intro expected_measurement_range) simp_all
  moreover have "0 < expected_measurement (n + 1)
      \<and> expected_measurement (n + 1) < 2 ^ (n + 1)"
    using assms(1,2) by (intro expected_measurement_range) simp_all
  ultimately show ?thesis
    using expected_estimates_closer [OF assms(1,2)] by (simp only: est_value simp_thms)
qed

theorem estimates_approach_pi_witness:
  "get_pi_estimate (stub_sdk (Inr ()) (Inr [(''00101001'', 10000)])) 8 = Inr (128 / 41)
   \<and> get_pi_estimate (stub_sdk (Inr ()) (Inr [(''001010001'', 10000)])) 9 = Inr (256 / 81)
   \<and> \<bar>256 / 81 - pi\<bar> \<le> \<bar>128 / 41 - pi\<bar>
   \<and> solve_for_pi 8 41 = Inr (128 / 41)"
proof -
  have "\<not> float_overflows (41 / 256)" "\<not> float_overflows (2 * (41 / 256))"
    by (rule not_float_overflows_below_two, simp)+
  then have direct: "solve_for_pi 8 41 = Inr (128 / 41)"
    by (simp add: solve_for_pi_def py_truediv_def py_fdiv_def ebind_def)
  obtain circ where c: "get_pi_estimate_circuit 8 = Inr circ"
    using get_pi_estimate_circuit_ok [of 8] by simp
  obtain circ' where c': "get_pi_estimate_circuit (8 + 1) = Inr circ'"
    using get_pi_estimate_circuit_ok [of "8 + 1"] by simp
  have m: "most_frequent [(''00101001'', 10000)] = Inr (expected_measurement 8)"
    by (simp add: expected_measurement_values most_frequent_def py_max_def keys_def
          py_int_base2_def is_bitstring_def is_bit_def bin_value_def ebind_def)
  have m': "most_frequent [(''001010001'', 10000)] = Inr (expected_measurement (8 + 1))"
    by (simp add: expected_measurement_values most_frequent_def py_max_def keys_def
          py_int_base2_def is_bitstring_def is_bit_def bin_value_def ebind_def)
  from estimates_approach_pi [OF _ _ c stub_counts m c' stub_counts m']
  show ?thesis
    using direct by (simp add: expected_measurement_values)
qed

end
